theory Spec2Isabelle
  imports Complex_Main
begin

section \<open>Python-VM: a stack-based bytecode virtual machine\<close>

text \<open>
  The development embeds \<^verbatim>\<open>VMState/vm.py\<close>: the instruction registry, the assembler,
  the opcode handlers with their stack-depth decorator, and the fetch-execute loop.

  Conventions of the embedding.
  \<^item> Python integers are unbounded: type \<open>int\<close>. The conversions \<^verbatim>\<open>int(str)\<close> and
    \<^verbatim>\<open>str(int)\<close> are modelled without the interpreter's optional limit on the
    number of digits.
  \<^item> A Python value that lives on the stack, in the program counter or in an instruction
    argument is an integer or \<^verbatim>\<open>None\<close>: type \<open>val\<close>.
  \<^item> The program text given to the assembler is a \<open>string\<close>, so its characters have code
    points below 256. The output buffer can hold any code point (\<^verbatim>\<open>chr\<close> reaches
    0x10FFFF), so it is a list of code points, \<open>pystr\<close>.
  \<^item> An exception is a value of type \<open>error\<close>; a method that mutates \<^verbatim>\<open>self\<close> takes
    the state and returns the state it leaves behind, also when it raises.
  \<^item> \<^verbatim>\<open>LifoQueue\<close> is the list \<^verbatim>\<open>queue\<close> it wraps: \<^verbatim>\<open>put\<close> appends at the end,
    \<^verbatim>\<open>get\<close> removes the last element, \<^verbatim>\<open>queue[-1]\<close> reads it.
\<close>

subsection \<open>Values, errors, state\<close>

datatype val = IntV int | NoneV

type_synonym pystr = "nat list"

datatype error =
    DivByZero
  | VMSegfault
  | VMStackFail
  | InvalidInstruction
  | TypeError
  | ValueError
  | OverflowError
  | IndexError
  | KeyError
  | ZeroDivisionError
  | Blocked

text \<open>
  The first four errors are the exception classes of the module. The next six are the
  built-in exceptions that the Python operations used by the module raise. \<open>Blocked\<close>
  stands for \<^verbatim>\<open>LifoQueue.get()\<close> on an empty queue, which waits forever.
\<close>

text \<open>The bound methods stored in \<^verbatim>\<open>instruction_actions\<close>, by name.\<close>

datatype action =
    Vm_print
  | Vm_load_const
  | Vm_add
  | Vm_exit
  | Vm_pop
  | Vm_div
  | Vm_eq
  | Vm_neq
  | Vm_dup
  | Vm_jmp
  | Vm_jmpz
  | Vm_write
  | Vm_write_char

record vm_state =
  pc :: val
  next_op_id :: int
  stack :: "val list"
  instruction_ids :: "string \<rightharpoonup> int"
  instruction_actions :: "int \<rightharpoonup> action"
  vm_output :: pystr
  stdout :: pystr

text \<open>
  \<open>stdout\<close> is not a field of the class: it is the standard output of the process, to
  which \<^verbatim>\<open>print\<close> writes.
\<close>

type_synonym 'a result = "(error + 'a) \<times> vm_state"

type_synonym program = "(int \<times> val) list"

subsection \<open>Python built-ins used by the module\<close>

definition ustr :: "string \<Rightarrow> pystr" where
  "ustr s = map of_char s"

function digits10 :: "nat \<Rightarrow> pystr" where
  "digits10 n = (if n < 10 then [48 + n] else digits10 (n div 10) @ [48 + n mod 10])"
  by pat_completeness auto
termination
  by (relation "measure id") auto

declare digits10.simps [simp del]

definition str_int :: "int \<Rightarrow> pystr" where
  "str_int i = (if i < 0 then 45 # digits10 (nat (- i)) else digits10 (nat i))"

definition py_str :: "val \<Rightarrow> pystr" where
  "py_str v = (case v of IntV i \<Rightarrow> str_int i | NoneV \<Rightarrow> ustr ''None'')"

definition py_chr :: "val \<Rightarrow> error + pystr" where
  "py_chr v = (case v of
       NoneV \<Rightarrow> Inl TypeError
     | IntV i \<Rightarrow>
         if i < - 2147483648 \<or> 2147483647 < i then Inl OverflowError
         else if i < 0 \<or> 1114112 \<le> i then Inl ValueError
         else Inr [nat i])"

definition py_not :: "val \<Rightarrow> bool" where
  "py_not v = (case v of IntV i \<Rightarrow> i = 0 | NoneV \<Rightarrow> True)"

definition py_add :: "val \<Rightarrow> val \<Rightarrow> error + val" where
  "py_add a b = (case (a, b) of (IntV x, IntV y) \<Rightarrow> Inr (IntV (x + y)) | _ \<Rightarrow> Inl TypeError)"

definition py_floordiv :: "val \<Rightarrow> val \<Rightarrow> error + val" where
  "py_floordiv a b = (case (a, b) of
       (IntV x, IntV y) \<Rightarrow> if y = 0 then Inl ZeroDivisionError else Inr (IntV (x div y))
     | _ \<Rightarrow> Inl TypeError)"

text \<open>
  \<^verbatim>\<open>str.split(sep)\<close> with a separator of one character: the pieces between the
  separators, empty pieces included; the empty string gives one empty piece.
\<close>

fun split_py :: "char \<Rightarrow> string \<Rightarrow> string list" where
  "split_py sep [] = [[]]"
| "split_py sep (c # cs) =
     (if c = sep then [] # split_py sep cs
      else (c # hd (split_py sep cs)) # tl (split_py sep cs))"

text \<open>
  \<^verbatim>\<open>int(s)\<close> for a string of code points below 256: surrounding white space is
  dropped, one sign is allowed, then decimal digits with single underscores between
  digits.
\<close>

definition py_isspace :: "char \<Rightarrow> bool" where
  "py_isspace c = (of_char c \<in> {9, 10, 11, 12, 13, 32, 133, 160 :: nat})"

definition is_digit :: "char \<Rightarrow> bool" where
  "is_digit c = (48 \<le> (of_char c :: nat) \<and> (of_char c :: nat) \<le> 57)"

definition digit_val :: "char \<Rightarrow> int" where
  "digit_val c = int (of_char c) - 48"

fun digits_val :: "string \<Rightarrow> int \<Rightarrow> int option" where
  "digits_val [] acc = Some acc"
| "digits_val (c # cs) acc =
     (if is_digit c then digits_val cs (10 * acc + digit_val c)
      else if c = CHR ''_'' then
        (case cs of
           [] \<Rightarrow> None
         | d # ds \<Rightarrow> if is_digit d then digits_val ds (10 * acc + digit_val d) else None)
      else None)"

definition strip :: "string \<Rightarrow> string" where
  "strip s = rev (dropWhile py_isspace (rev (dropWhile py_isspace s)))"

definition py_int :: "string \<Rightarrow> int option" where
  "py_int s =
     (let t = strip s;
          neg = (t \<noteq> [] \<and> hd t = CHR ''-'');
          u = (if t \<noteq> [] \<and> (hd t = CHR ''-'' \<or> hd t = CHR ''+'') then tl t else t)
      in case u of
           [] \<Rightarrow> None
         | c # cs \<Rightarrow>
             if is_digit c
             then map_option (\<lambda>v. if neg then - v else v) (digits_val cs (digit_val c))
             else None)"

subsection \<open>The stack\<close>

definition stack_put :: "val \<Rightarrow> vm_state \<Rightarrow> vm_state" where
  "stack_put v s = s\<lparr>stack := stack s @ [v]\<rparr>"

definition stack_get :: "vm_state \<Rightarrow> error + (val \<times> vm_state)" where
  "stack_get s =
     (if stack s = [] then Inl Blocked
      else Inr (last (stack s), s\<lparr>stack := butlast (stack s)\<rparr>))"

definition stack_top :: "vm_state \<Rightarrow> error + val" where
  "stack_top s = (if stack s = [] then Inl IndexError else Inr (last (stack s)))"

subsection \<open>The depth check\<close>

text \<open>
  \<^verbatim>\<open>check_argument_length(n)\<close> wraps a handler: the wrapper raises \<^verbatim>\<open>VMStackFail\<close>
  when fewer than \<open>n\<close> items are on the stack and calls the handler otherwise. The
  decorator's default is \<open>n = 1\<close>; a handler decorated with \<^verbatim>\<open>@check_argument_length()\<close>
  is wrapped with \<open>check_argument_length 1\<close> below.
\<close>

definition check_argument_length ::
  "nat \<Rightarrow> (vm_state \<Rightarrow> val \<Rightarrow> bool result) \<Rightarrow> vm_state \<Rightarrow> val \<Rightarrow> bool result" where
  "check_argument_length n func s arg =
     (if length (stack s) < n then (Inl VMStackFail, s) else func s arg)"

subsection \<open>Opcode handlers\<close>

text \<open>
  Each handler \<open>vm_x\<close> is the decorated method of the class; \<open>vm_x_func\<close> is the
  function under the decorator. \<^verbatim>\<open>vm_load_const\<close> and \<^verbatim>\<open>vm_jmp\<close> carry no decorator.
\<close>

definition vm_print_func :: "vm_state \<Rightarrow> val \<Rightarrow> bool result" where
  "vm_print_func s arg =
     (case stack_top s of
        Inl e \<Rightarrow> (Inl e, s)
      | Inr v \<Rightarrow> (Inr True, s\<lparr>stdout := stdout s @ py_str v @ [10]\<rparr>))"

definition vm_print :: "vm_state \<Rightarrow> val \<Rightarrow> bool result" where
  "vm_print = check_argument_length 1 vm_print_func"

definition vm_load_const :: "vm_state \<Rightarrow> val \<Rightarrow> bool result" where
  "vm_load_const s arg = (Inr True, stack_put arg s)"

definition vm_add_func :: "vm_state \<Rightarrow> val \<Rightarrow> bool result" where
  "vm_add_func s arg =
     (case stack_get s of
        Inl e \<Rightarrow> (Inl e, s)
      | Inr (tos, s1) \<Rightarrow>
          (case stack_get s1 of
             Inl e \<Rightarrow> (Inl e, s1)
           | Inr (tos_1, s2) \<Rightarrow>
               (case py_add tos tos_1 of
                  Inl e \<Rightarrow> (Inl e, s2)
                | Inr v \<Rightarrow> (Inr True, stack_put v s2))))"

definition vm_add :: "vm_state \<Rightarrow> val \<Rightarrow> bool result" where
  "vm_add = check_argument_length 2 vm_add_func"

definition vm_exit_func :: "vm_state \<Rightarrow> val \<Rightarrow> bool result" where
  "vm_exit_func s arg = (Inr False, s)"

definition vm_exit :: "vm_state \<Rightarrow> val \<Rightarrow> bool result" where
  "vm_exit = check_argument_length 1 vm_exit_func"

definition vm_pop_func :: "vm_state \<Rightarrow> val \<Rightarrow> bool result" where
  "vm_pop_func s arg =
     (case stack_get s of
        Inl e \<Rightarrow> (Inl e, s)
      | Inr (v, s1) \<Rightarrow> (Inr True, s1))"

definition vm_pop :: "vm_state \<Rightarrow> val \<Rightarrow> bool result" where
  "vm_pop = check_argument_length 1 vm_pop_func"

definition vm_div_func :: "vm_state \<Rightarrow> val \<Rightarrow> bool result" where
  "vm_div_func s arg =
     (case stack_get s of
        Inl e \<Rightarrow> (Inl e, s)
      | Inr (tos, s1) \<Rightarrow>
          (case stack_get s1 of
             Inl e \<Rightarrow> (Inl e, s1)
           | Inr (tos_1, s2) \<Rightarrow>
               if tos = IntV 0 then (Inl DivByZero, s2)
               else
                 (case py_floordiv tos_1 tos of
                    Inl e \<Rightarrow> (Inl e, s2)
                  | Inr v \<Rightarrow> (Inr True, stack_put v s2))))"

definition vm_div :: "vm_state \<Rightarrow> val \<Rightarrow> bool result" where
  "vm_div = check_argument_length 2 vm_div_func"

definition vm_eq_func :: "vm_state \<Rightarrow> val \<Rightarrow> bool result" where
  "vm_eq_func s arg =
     (case stack_get s of
        Inl e \<Rightarrow> (Inl e, s)
      | Inr (a, s1) \<Rightarrow>
          (case stack_get s1 of
             Inl e \<Rightarrow> (Inl e, s1)
           | Inr (b, s2) \<Rightarrow> (Inr True, stack_put (IntV (if a = b then 1 else 0)) s2)))"

definition vm_eq :: "vm_state \<Rightarrow> val \<Rightarrow> bool result" where
  "vm_eq = check_argument_length 2 vm_eq_func"

definition vm_neq_func :: "vm_state \<Rightarrow> val \<Rightarrow> bool result" where
  "vm_neq_func s arg =
     (case stack_get s of
        Inl e \<Rightarrow> (Inl e, s)
      | Inr (a, s1) \<Rightarrow>
          (case stack_get s1 of
             Inl e \<Rightarrow> (Inl e, s1)
           | Inr (b, s2) \<Rightarrow> (Inr True, stack_put (IntV (if a = b then 0 else 1)) s2)))"

definition vm_neq :: "vm_state \<Rightarrow> val \<Rightarrow> bool result" where
  "vm_neq = check_argument_length 2 vm_neq_func"

definition vm_dup_func :: "vm_state \<Rightarrow> val \<Rightarrow> bool result" where
  "vm_dup_func s arg =
     (case stack_top s of
        Inl e \<Rightarrow> (Inl e, s)
      | Inr v \<Rightarrow> (Inr True, stack_put v s))"

definition vm_dup :: "vm_state \<Rightarrow> val \<Rightarrow> bool result" where
  "vm_dup = check_argument_length 1 vm_dup_func"

definition vm_jmp :: "vm_state \<Rightarrow> val \<Rightarrow> bool result" where
  "vm_jmp s arg = (Inr True, s\<lparr>pc := arg\<rparr>)"

definition vm_jmpz_func :: "vm_state \<Rightarrow> val \<Rightarrow> bool result" where
  "vm_jmpz_func s arg =
     (case stack_top s of
        Inl e \<Rightarrow> (Inl e, s)
      | Inr v \<Rightarrow>
          if py_not v then
            (case stack_get s of
               Inl e \<Rightarrow> (Inl e, s)
             | Inr (w, s1) \<Rightarrow> (Inr True, s1\<lparr>pc := arg\<rparr>))
          else (Inr True, s))"

definition vm_jmpz :: "vm_state \<Rightarrow> val \<Rightarrow> bool result" where
  "vm_jmpz = check_argument_length 1 vm_jmpz_func"

definition vm_write_func :: "vm_state \<Rightarrow> val \<Rightarrow> bool result" where
  "vm_write_func s arg =
     (case stack_top s of
        Inl e \<Rightarrow> (Inl e, s)
      | Inr v \<Rightarrow> (Inr True, s\<lparr>vm_output := vm_output s @ py_str v\<rparr>))"

definition vm_write :: "vm_state \<Rightarrow> val \<Rightarrow> bool result" where
  "vm_write = check_argument_length 1 vm_write_func"

definition vm_write_char_func :: "vm_state \<Rightarrow> val \<Rightarrow> bool result" where
  "vm_write_char_func s arg =
     (case stack_top s of
        Inl e \<Rightarrow> (Inl e, s)
      | Inr v \<Rightarrow>
          (case py_chr v of
             Inl e \<Rightarrow> (Inl e, s)
           | Inr c \<Rightarrow> (Inr True, s\<lparr>vm_output := vm_output s @ c\<rparr>)))"

definition vm_write_char :: "vm_state \<Rightarrow> val \<Rightarrow> bool result" where
  "vm_write_char = check_argument_length 1 vm_write_char_func"

text \<open>Calling the bound method stored under an opcode id.\<close>

fun call :: "action \<Rightarrow> vm_state \<Rightarrow> val \<Rightarrow> bool result" where
  "call Vm_print = vm_print"
| "call Vm_load_const = vm_load_const"
| "call Vm_add = vm_add"
| "call Vm_exit = vm_exit"
| "call Vm_pop = vm_pop"
| "call Vm_div = vm_div"
| "call Vm_eq = vm_eq"
| "call Vm_neq = vm_neq"
| "call Vm_dup = vm_dup"
| "call Vm_jmp = vm_jmp"
| "call Vm_jmpz = vm_jmpz"
| "call Vm_write = vm_write"
| "call Vm_write_char = vm_write_char"

subsection \<open>The instruction registry\<close>

definition register_instruction :: "string \<Rightarrow> action \<Rightarrow> vm_state \<Rightarrow> vm_state" where
  "register_instruction name act s =
     s\<lparr>instruction_ids := (instruction_ids s)(name \<mapsto> next_op_id s),
       instruction_actions := (instruction_actions s)(next_op_id s \<mapsto> act),
       next_op_id := next_op_id s + 1\<rparr>"

definition create_vm :: "vm_state \<Rightarrow> vm_state" where
  "create_vm s =
     foldl (\<lambda>t (name, act). register_instruction name act t) s
       [(''PRINT'', Vm_print),
        (''LOAD_CONST'', Vm_load_const),
        (''ADD'', Vm_add),
        (''EXIT'', Vm_exit),
        (''POP'', Vm_pop),
        (''DIV'', Vm_div),
        (''EQ'', Vm_eq),
        (''NEQ'', Vm_neq),
        (''DUP'', Vm_dup),
        (''JMP'', Vm_jmp),
        (''JMPZ'', Vm_jmpz),
        (''WRITE'', Vm_write),
        (''WRITE_CHAR'', Vm_write_char)]"

text \<open>\<^verbatim>\<open>VMState.__init__\<close>: the state of a freshly constructed machine.\<close>

definition new_vm :: vm_state where
  "new_vm =
     create_vm
       \<lparr>pc = IntV 0, next_op_id = 0, stack = [], instruction_ids = Map.empty,
        instruction_actions = Map.empty, vm_output = [], stdout = []\<rparr>"

subsection \<open>The assembler\<close>

text \<open>
  The body of the \<^verbatim>\<open>for\<close> loop of \<^verbatim>\<open>assemble\<close> for one line: the instruction to
  append, or the exception raised. The membership test and the look-up of the
  mnemonic are one \<open>case\<close>; \<^verbatim>\<open>int\<close> raises \<^verbatim>\<open>ValueError\<close> on text it cannot parse.
\<close>

definition assemble_line :: "vm_state \<Rightarrow> string \<Rightarrow> error + (int \<times> val)" where
  "assemble_line s line =
     (let words = split_py (CHR '' '') line in
      if length words \<ge> 3 then Inl InvalidInstruction
      else
        (case instruction_ids s (hd words) of
           None \<Rightarrow> Inl InvalidInstruction
         | Some op_id \<Rightarrow>
             if length words = 2 then
               (case py_int (words ! 1) of
                  None \<Rightarrow> Inl ValueError
                | Some n \<Rightarrow> Inr (op_id, IntV n))
             else Inr (op_id, NoneV)))"

fun assemble_loop :: "vm_state \<Rightarrow> string list \<Rightarrow> program \<Rightarrow> error + program" where
  "assemble_loop s [] code = Inr code"
| "assemble_loop s (line # lines) code =
     (case assemble_line s line of
        Inl e \<Rightarrow> Inl e
      | Inr ins \<Rightarrow> assemble_loop s lines (code @ [ins]))"

definition assemble :: "vm_state \<Rightarrow> string \<Rightarrow> error + program" where
  "assemble s input_code =
     assemble_loop s (filter (\<lambda>line. line \<noteq> []) (split_py (CHR 0x0A) input_code)) []"

subsection \<open>The fetch-execute loop\<close>

text \<open>
  One iteration of the \<^verbatim>\<open>while\<close> loop of \<^verbatim>\<open>run\<close>: the bounds check on \<^verbatim>\<open>pc\<close>
  (comparing \<^verbatim>\<open>None\<close> with an integer raises \<^verbatim>\<open>TypeError\<close>), the fetch, the
  increment, and the call of the handler, whose result is the \<^verbatim>\<open>status\<close>.
\<close>

definition run_step :: "program \<Rightarrow> vm_state \<Rightarrow> bool result" where
  "run_step code s =
     (case pc s of
        NoneV \<Rightarrow> (Inl TypeError, s)
      | IntV p \<Rightarrow>
          if p < 0 \<or> p \<ge> int (length code) then (Inl VMSegfault, s)
          else
            (case code ! nat p of
               (op_id, arg) \<Rightarrow>
                 (let s1 = s\<lparr>pc := IntV (p + 1)\<rparr> in
                  case instruction_actions s1 op_id of
                    None \<Rightarrow> (Inl KeyError, s1)
                  | Some act \<Rightarrow> call act s1 arg)))"

text \<open>The \<^verbatim>\<open>return\<close> statement after the loop.\<close>

definition run_return :: "vm_state \<Rightarrow> (val \<times> pystr) result" where
  "run_return s =
     (case stack_top s of
        Inl e \<Rightarrow> (Inl e, s)
      | Inr v \<Rightarrow> (Inr (v, vm_output s), s))"

text \<open>
  The loop may run forever, so \<open>run\<close> takes the number of iterations it may make:
  \<open>None\<close> says that the loop is still running after that many.
\<close>

fun run :: "nat \<Rightarrow> program \<Rightarrow> vm_state \<Rightarrow> (val \<times> pystr) result option" where
  "run 0 code s = None"
| "run (Suc fuel) code s =
     (case run_step code s of
        (Inl e, s') \<Rightarrow> Some (Inl e, s')
      | (Inr status, s') \<Rightarrow> if \<not> status then Some (run_return s') else run fuel code s')"

text \<open>
  The state at the \<open>k\<close>-th fetch of a run (counted from 0), or the last state reached
  when the run ends before that.
\<close>

fun state_at :: "nat \<Rightarrow> program \<Rightarrow> vm_state \<Rightarrow> vm_state" where
  "state_at 0 code s = s"
| "state_at (Suc k) code s =
     (case run_step code s of
        (Inr True, s') \<Rightarrow> state_at k code s'
      | (r, s') \<Rightarrow> s')"

subsection \<open>Notions used in the statements\<close>

text \<open>A state whose registry is the one built by \<^verbatim>\<open>create_vm\<close>.\<close>

definition registered :: "vm_state \<Rightarrow> bool" where
  "registered s \<longleftrightarrow>
     instruction_ids s = instruction_ids new_vm \<and>
     instruction_actions s = instruction_actions new_vm"

text \<open>
  The text that the instruction about to be fetched in state \<open>s\<close> appends to the output
  buffer: WRITE appends the decimal form of the top of the stack (\<^verbatim>\<open>str\<close> of it, which is
  \<^verbatim>\<open>None\<close> for the absent marker), WRITE_CHAR the character whose code point is the top
  (nothing when the top is not a code point, where \<^verbatim>\<open>chr\<close> raises), any other
  instruction nothing. The mnemonics are resolved through
  \<^verbatim>\<open>instruction_ids\<close>.
\<close>

definition written :: "program \<Rightarrow> vm_state \<Rightarrow> pystr" where
  "written code s =
     (case pc s of
        NoneV \<Rightarrow> []
      | IntV p \<Rightarrow>
          if p < 0 \<or> p \<ge> int (length code) \<or> stack s = [] then []
          else if instruction_ids s ''WRITE'' = Some (fst (code ! nat p)) then
            (case last (stack s) of IntV i \<Rightarrow> str_int i | NoneV \<Rightarrow> ustr ''None'')
          else if instruction_ids s ''WRITE_CHAR'' = Some (fst (code ! nat p)) then
            (case last (stack s) of
               IntV i \<Rightarrow> if 0 \<le> i \<and> i < 1114112 then [nat i] else []
             | NoneV \<Rightarrow> [])
          else [])"

text \<open>The operand stack holds integers only.\<close>

definition int_stack :: "vm_state \<Rightarrow> bool" where
  "int_stack s = list_all (\<lambda>v. v \<noteq> NoneV) (stack s)"

text \<open>Every LOAD_CONST instruction of the program carries an integer argument.\<close>

definition args_present :: "vm_state \<Rightarrow> program \<Rightarrow> bool" where
  "args_present s code =
     list_all (\<lambda>(op_id, arg). instruction_ids s ''LOAD_CONST'' = Some op_id \<longrightarrow> arg \<noteq> NoneV)
       code"

text \<open>
  A line of white space only, that is, one that trimming (\<^verbatim>\<open>str.strip\<close>) leaves empty:
  every character of it is white space for \<^verbatim>\<open>str.isspace\<close> (the code points below 256 for
  which that holds are listed).
\<close>

definition blank_line :: "string \<Rightarrow> bool" where
  "blank_line l =
     list_all (\<lambda>c. of_char c \<in> {9, 10, 11, 12, 13, 28, 29, 30, 31, 32, 133, 160 :: nat}) l"

section \<open>Properties\<close>

subsection \<open>The registry and the handlers\<close>

lemma instruction_actions_new_vm:
  "instruction_actions new_vm =
     [0 \<mapsto> Vm_print, 1 \<mapsto> Vm_load_const, 2 \<mapsto> Vm_add, 3 \<mapsto> Vm_exit, 4 \<mapsto> Vm_pop,
      5 \<mapsto> Vm_div, 6 \<mapsto> Vm_eq, 7 \<mapsto> Vm_neq, 8 \<mapsto> Vm_dup, 9 \<mapsto> Vm_jmp, 10 \<mapsto> Vm_jmpz,
      11 \<mapsto> Vm_write, 12 \<mapsto> Vm_write_char]"
  by (simp add: new_vm_def create_vm_def register_instruction_def)

lemma instruction_ids_new_vm:
  "instruction_ids new_vm =
     [''PRINT'' \<mapsto> 0, ''LOAD_CONST'' \<mapsto> 1, ''ADD'' \<mapsto> 2, ''EXIT'' \<mapsto> 3, ''POP'' \<mapsto> 4,
      ''DIV'' \<mapsto> 5, ''EQ'' \<mapsto> 6, ''NEQ'' \<mapsto> 7, ''DUP'' \<mapsto> 8, ''JMP'' \<mapsto> 9, ''JMPZ'' \<mapsto> 10,
      ''WRITE'' \<mapsto> 11, ''WRITE_CHAR'' \<mapsto> 12]"
  by (simp add: new_vm_def create_vm_def register_instruction_def)

lemma new_vm_fields:
  "pc new_vm = IntV 0" "stack new_vm = []" "vm_output new_vm = []" "stdout new_vm = []"
  "next_op_id new_vm = 13"
  by (simp_all add: new_vm_def create_vm_def register_instruction_def)

lemma registered_new_vm: "registered new_vm"
  by (simp add: registered_def)

lemmas handler_defs =
  vm_print_def vm_print_func_def vm_load_const_def vm_add_def vm_add_func_def
  vm_exit_def vm_exit_func_def vm_pop_def vm_pop_func_def vm_div_def vm_div_func_def
  vm_eq_def vm_eq_func_def vm_neq_def vm_neq_func_def vm_dup_def vm_dup_func_def
  vm_jmp_def vm_jmpz_def vm_jmpz_func_def vm_write_def vm_write_func_def
  vm_write_char_def vm_write_char_func_def
  check_argument_length_def stack_get_def stack_put_def stack_top_def

lemma butlast_nonempty: "2 \<le> length xs \<Longrightarrow> butlast xs \<noteq> []"
  by (cases xs rule: rev_cases) auto

lemma split_py_nonempty: "split_py sep cs \<noteq> []"
  by (induction cs) auto

lemma split_py_Cons:
  "split_py sep (c # cs) =
     (if c = sep then [] # split_py sep cs
      else (case split_py sep cs of x # xs \<Rightarrow> (c # x) # xs))"
  using split_py_nonempty [of sep cs] by (cases "split_py sep cs") auto

lemma split_py_append:
  "split_py sep (a @ sep # b) = split_py sep a @ split_py sep b"
  using split_py_nonempty [of sep]
  by (induction a) (auto simp: hd_append tl_append split: list.splits)

lemma split_py_hd_subset: "set (hd (split_py sep l)) \<subseteq> set l"
  by (induction l) auto

lemma split_py_no_sep: "sep \<notin> set l \<Longrightarrow> split_py sep l = [l]"
  by (induction l) auto

subsection \<open>The assembler\<close>

lemma assemble_loop_Inl:
  "assemble_loop s ls acc = Inl e \<longleftrightarrow>
     (\<exists>pre l post. ls = pre @ l # post \<and> list_all (\<lambda>x. \<not> isl (assemble_line s x)) pre \<and>
        assemble_line s l = Inl e)"
proof (induction ls arbitrary: acc)
  case Nil
  show ?case by simp
next
  case (Cons a ls)
  show ?case
  proof (cases "assemble_line s a")
    case (Inl e')
    have "(\<exists>pre l post. a # ls = pre @ l # post \<and> list_all (\<lambda>x. \<not> isl (assemble_line s x)) pre \<and>
        assemble_line s l = Inl e) \<longleftrightarrow> e' = e"
    proof
      assume "\<exists>pre l post. a # ls = pre @ l # post \<and> list_all (\<lambda>x. \<not> isl (assemble_line s x)) pre \<and>
        assemble_line s l = Inl e"
      then obtain pre l post where h: "a # ls = pre @ l # post"
        "list_all (\<lambda>x. \<not> isl (assemble_line s x)) pre" "assemble_line s l = Inl e"
        by blast
      show "e' = e"
      proof (cases pre)
        case Nil
        with h Inl show ?thesis by simp
      next
        case (Cons x xs)
        with h Inl show ?thesis by simp
      qed
    next
      assume "e' = e"
      with Inl have "a # ls = [] @ a # ls \<and> list_all (\<lambda>x. \<not> isl (assemble_line s x)) [] \<and>
        assemble_line s a = Inl e" by simp
      then show "\<exists>pre l post. a # ls = pre @ l # post \<and>
        list_all (\<lambda>x. \<not> isl (assemble_line s x)) pre \<and> assemble_line s l = Inl e"
        by blast
    qed
    with Inl show ?thesis by simp
  next
    case (Inr ins)
    have "(\<exists>pre l post. a # ls = pre @ l # post \<and> list_all (\<lambda>x. \<not> isl (assemble_line s x)) pre \<and>
        assemble_line s l = Inl e) \<longleftrightarrow>
      (\<exists>pre l post. ls = pre @ l # post \<and> list_all (\<lambda>x. \<not> isl (assemble_line s x)) pre \<and>
        assemble_line s l = Inl e)"
    proof
      assume "\<exists>pre l post. a # ls = pre @ l # post \<and> list_all (\<lambda>x. \<not> isl (assemble_line s x)) pre \<and>
        assemble_line s l = Inl e"
      then obtain pre l post where h: "a # ls = pre @ l # post"
        "list_all (\<lambda>x. \<not> isl (assemble_line s x)) pre" "assemble_line s l = Inl e"
        by blast
      show "\<exists>pre l post. ls = pre @ l # post \<and> list_all (\<lambda>x. \<not> isl (assemble_line s x)) pre \<and>
        assemble_line s l = Inl e"
      proof (cases pre)
        case Nil
        with h Inr show ?thesis by simp
      next
        case (Cons x xs)
        with h have "ls = xs @ l # post \<and> list_all (\<lambda>x. \<not> isl (assemble_line s x)) xs \<and>
          assemble_line s l = Inl e" by simp
        then show ?thesis by blast
      qed
    next
      assume "\<exists>pre l post. ls = pre @ l # post \<and> list_all (\<lambda>x. \<not> isl (assemble_line s x)) pre \<and>
        assemble_line s l = Inl e"
      then obtain pre l post where h: "ls = pre @ l # post"
        "list_all (\<lambda>x. \<not> isl (assemble_line s x)) pre" "assemble_line s l = Inl e"
        by blast
      with Inr have "a # ls = (a # pre) @ l # post \<and>
        list_all (\<lambda>x. \<not> isl (assemble_line s x)) (a # pre) \<and> assemble_line s l = Inl e"
        by simp
      then show "\<exists>pre l post. a # ls = pre @ l # post \<and>
        list_all (\<lambda>x. \<not> isl (assemble_line s x)) pre \<and> assemble_line s l = Inl e"
        by blast
    qed
    with Inr Cons.IH [of "acc @ [ins]"] show ?thesis by simp
  qed
qed

lemma assemble_loop_Inr:
  "assemble_loop s ls acc = Inr code \<longleftrightarrow>
     (\<exists>inss. code = acc @ inss \<and> list_all2 (\<lambda>l ins. assemble_line s l = Inr ins) ls inss)"
proof (induction ls arbitrary: acc)
  case Nil
  show ?case by auto
next
  case (Cons a ls)
  show ?case
  proof (cases "assemble_line s a")
    case (Inl e)
    then show ?thesis by (auto simp: list_all2_Cons1)
  next
    case (Inr ins)
    with Cons.IH [of "acc @ [ins]"] show ?thesis
      by (auto simp: list_all2_Cons1)
  qed
qed

lemma assemble_line_invalid:
  "assemble_line s l = Inl InvalidInstruction \<longleftrightarrow>
     3 \<le> length (split_py (CHR '' '') l) \<or>
     instruction_ids s (hd (split_py (CHR '' '') l)) = None"
  by (auto simp: assemble_line_def Let_def split: option.splits)

lemma assemble_line_value:
  "assemble_line s l = Inl ValueError \<longleftrightarrow>
     length (split_py (CHR '' '') l) = 2 \<and>
     instruction_ids s (hd (split_py (CHR '' '') l)) \<noteq> None \<and>
     py_int (split_py (CHR '' '') l ! 1) = None"
  by (auto simp: assemble_line_def Let_def split: option.splits)

lemma assemble_line_errors:
  "assemble_line s l = Inl e \<Longrightarrow> e = InvalidInstruction \<or> e = ValueError"
  by (auto simp: assemble_line_def Let_def split: option.splits if_splits)

text \<open>
  C8, as stated, fails: an argument that \<^verbatim>\<open>int\<close> cannot parse makes \<^verbatim>\<open>assemble\<close> raise
  the \<^verbatim>\<open>ValueError\<close> of \<^verbatim>\<open>int\<close>, not \<^verbatim>\<open>InvalidInstruction\<close>.
\<close>

theorem assemble_value_error_counterexample:
  "assemble new_vm ''LOAD_CONST abc'' = Inl ValueError"
  by (simp del: split_py.simps(2) add: split_py_Cons assemble_def assemble_line_def
      instruction_ids_new_vm py_int_def strip_def py_isspace_def is_digit_def digit_val_def)

text \<open>
  C8, amended: \<^verbatim>\<open>assemble\<close> fails exactly when one of the non-empty lines fails, with
  the error of the first such line, and a failure carries no program. A line fails with
  \<^verbatim>\<open>InvalidInstruction\<close> in exactly two cases: it has 3 or more tokens (the pieces
  between single spaces), or its mnemonic is not in the registry. It fails with
  \<^verbatim>\<open>ValueError\<close> exactly when it has two tokens, its mnemonic is registered and the
  argument token cannot be parsed as an integer. A line fails in no other way.
\<close>

theorem assemble_failures:
  "(assemble s text = Inl e \<longleftrightarrow>
      (\<exists>pre l post.
         filter (\<lambda>x. x \<noteq> []) (split_py (CHR 0x0A) text) = pre @ l # post \<and>
         list_all (\<lambda>x. \<not> isl (assemble_line s x)) pre \<and> assemble_line s l = Inl e)) \<and>
   (assemble_line s line = Inl InvalidInstruction \<longleftrightarrow>
      3 \<le> length (split_py (CHR '' '') line) \<or>
      instruction_ids s (hd (split_py (CHR '' '') line)) = None) \<and>
   (assemble_line s line = Inl ValueError \<longleftrightarrow>
      length (split_py (CHR '' '') line) = 2 \<and>
      instruction_ids s (hd (split_py (CHR '' '') line)) \<noteq> None \<and>
      py_int (split_py (CHR '' '') line ! 1) = None) \<and>
   (assemble_line s line = Inl e \<longrightarrow> e = InvalidInstruction \<or> e = ValueError) \<and>
   (assemble s text = Inl e \<longrightarrow> (\<forall>code. assemble s text \<noteq> Inr code))"
proof -
  have "assemble s text = Inl e \<longleftrightarrow>
      (\<exists>pre l post.
         filter (\<lambda>x. x \<noteq> []) (split_py (CHR 0x0A) text) = pre @ l # post \<and>
         list_all (\<lambda>x. \<not> isl (assemble_line s x)) pre \<and> assemble_line s l = Inl e)"
    unfolding assemble_def by (rule assemble_loop_Inl)
  moreover have "assemble s text = Inl e \<longrightarrow> (\<forall>code. assemble s text \<noteq> Inr code)"
    by simp
  ultimately show ?thesis
    using assemble_line_invalid [of s line] assemble_line_value [of s line]
      assemble_line_errors [of s line e]
    by blast
qed

theorem assemble_failures_witness:
  "assemble new_vm (''ADD'' @ [CHR 0x0A] @ ''FOO'') = Inl InvalidInstruction \<and>
   assemble_line new_vm ''ADD 1 2'' = Inl InvalidInstruction \<and>
   assemble_line new_vm ''LOAD_CONST x'' = Inl ValueError"
proof -
  have l: "filter (\<lambda>x. x \<noteq> []) (split_py (CHR 0x0A) (''ADD'' @ [CHR 0x0A] @ ''FOO'')) =
      [''ADD''] @ ''FOO'' # []"
    by (simp del: split_py.simps(2) add: split_py_Cons)
  have p: "list_all (\<lambda>x. \<not> isl (assemble_line new_vm x)) [''ADD'']"
    by (simp del: split_py.simps(2) add: split_py_Cons assemble_line_def instruction_ids_new_vm)
  have w: "split_py (CHR '' '') ''FOO'' = [''FOO'']"
      "split_py (CHR '' '') ''ADD 1 2'' = [''ADD'', ''1'', ''2'']"
      "split_py (CHR '' '') ''LOAD_CONST x'' = [''LOAD_CONST'', ''x'']"
    by (simp_all del: split_py.simps(2) add: split_py_Cons)
  have i: "py_int ''x'' = None"
    by (simp add: py_int_def strip_def py_isspace_def is_digit_def)
  from assemble_failures [of new_vm "''FOO''" InvalidInstruction "''FOO''"]
  have f: "assemble_line new_vm ''FOO'' = Inl InvalidInstruction"
    by (simp add: w instruction_ids_new_vm)
  from assemble_failures [of new_vm "''ADD'' @ [CHR 0x0A] @ ''FOO''" InvalidInstruction "''ADD 1 2''"]
    l p f
  have a: "assemble new_vm (''ADD'' @ [CHR 0x0A] @ ''FOO'') = Inl InvalidInstruction"
    by blast
  from assemble_failures [of new_vm "''FOO''" InvalidInstruction "''ADD 1 2''"]
  have b: "assemble_line new_vm ''ADD 1 2'' = Inl InvalidInstruction"
    by (simp add: w)
  from assemble_failures [of new_vm "''FOO''" InvalidInstruction "''LOAD_CONST x''"]
  have c: "assemble_line new_vm ''LOAD_CONST x'' = Inl ValueError"
    by (simp add: w i instruction_ids_new_vm)
  from a b c show ?thesis by simp
qed

lemma instruction_ids_new_vm_name:
  "instruction_ids new_vm w = Some x \<Longrightarrow> w \<noteq> [] \<and> \<not> blank_line [hd w]"
  by (auto simp: instruction_ids_new_vm blank_line_def split: if_splits)

lemma assemble_line_blank:
  assumes "registered s" and "blank_line l"
  shows "assemble_line s l = Inl InvalidInstruction"
proof -
  let ?w = "hd (split_py (CHR '' '') l)"
  have "instruction_ids new_vm ?w = None"
  proof (cases "instruction_ids new_vm ?w")
    case None
    then show ?thesis .
  next
    case (Some x)
    from instruction_ids_new_vm_name [OF Some] have "?w \<noteq> []" "\<not> blank_line [hd ?w]"
      by simp_all
    moreover from \<open>?w \<noteq> []\<close> have "hd ?w \<in> set l"
      using split_py_hd_subset [of "CHR '' ''" l] by (cases ?w) auto
    ultimately show ?thesis
      using assms(2) by (auto simp: blank_line_def list_all_iff)
  qed
  with assms(1) show ?thesis
    by (simp add: assemble_line_invalid registered_def)
qed

lemma assembled_lines_ok:
  "list_all2 (\<lambda>l ins. assemble_line s l = Inr ins) ls inss \<Longrightarrow>
     list_all (\<lambda>x. \<not> isl (assemble_line s x)) ls"
  by (induction ls inss rule: list_all2_induct) auto

lemma assemble_blank_line:
  assumes "registered s" and "line \<noteq> []" and "blank_line line" and "CHR 0x0A \<notin> set line"
    and "assemble s a = Inr code"
  shows "assemble s (a @ CHR 0x0A # line @ CHR 0x0A # b) = Inl InvalidInstruction"
proof -
  let ?ls = "\<lambda>t. filter (\<lambda>l. l \<noteq> []) (split_py (CHR 0x0A) t)"
  have "?ls (a @ CHR 0x0A # line @ CHR 0x0A # b) = ?ls a @ line # ?ls b"
    using assms(2,4) by (simp add: split_py_append split_py_no_sep)
  moreover from assms(5) have "list_all (\<lambda>x. \<not> isl (assemble_line s x)) (?ls a)"
    by (auto simp: assemble_def assemble_loop_Inr intro: assembled_lines_ok)
  moreover have "assemble_line s line = Inl InvalidInstruction"
    using assms(1,3) by (rule assemble_line_blank)
  ultimately show ?thesis
    unfolding assemble_def assemble_loop_Inl by blast
qed

text \<open>
  C9, as stated, fails: only the lines that are empty are skipped. A line holding a
  single space is kept; it splits into two empty tokens, and the empty mnemonic is not
  in the registry, so \<^verbatim>\<open>assemble\<close> raises \<^verbatim>\<open>InvalidInstruction\<close>.
\<close>

theorem assemble_whitespace_line_counterexample:
  "assemble new_vm (''ADD'' @ [CHR 0x0A] @ '' '' @ [CHR 0x0A] @ ''EXIT'') =
     Inl InvalidInstruction"
  by (simp del: split_py.simps(2) add: split_py_Cons assemble_def assemble_line_def
      instruction_ids_new_vm)

text \<open>
  C9, amended: \<^verbatim>\<open>assemble\<close> splits the text on newlines and skips every empty line.
  An empty line produces no instruction and causes no error: an empty line between two
  lines, at the start or at the end of the text changes nothing. A program is returned
  exactly when every non-empty line assembles, and it holds the instructions of the
  non-empty lines, one for each, in order. A non-empty line of white space only is not
  skipped: after lines that assemble it makes \<^verbatim>\<open>assemble\<close> raise
  \<^verbatim>\<open>InvalidInstruction\<close>.
\<close>

theorem assemble_skips_empty_lines:
  "assemble s (a @ CHR 0x0A # CHR 0x0A # b) = assemble s (a @ CHR 0x0A # b) \<and>
   assemble s (CHR 0x0A # b) = assemble s b \<and>
   assemble s (a @ [CHR 0x0A]) = assemble s a \<and>
   (assemble s text = Inr code \<longleftrightarrow>
      list_all2 (\<lambda>l ins. assemble_line s l = Inr ins)
        (filter (\<lambda>l. l \<noteq> []) (split_py (CHR 0x0A) text)) code) \<and>
   (registered s \<and> line \<noteq> [] \<and> blank_line line \<and> CHR 0x0A \<notin> set line \<and>
    assemble s a = Inr code' \<longrightarrow>
      assemble s (a @ CHR 0x0A # line @ CHR 0x0A # b) = Inl InvalidInstruction)"
proof -
  have 1: "assemble s (a @ CHR 0x0A # CHR 0x0A # b) = assemble s (a @ CHR 0x0A # b)"
    by (simp add: assemble_def split_py_append)
  have 2: "assemble s (CHR 0x0A # b) = assemble s b"
    by (simp add: assemble_def)
  have 3: "assemble s (a @ [CHR 0x0A]) = assemble s a"
    by (simp add: assemble_def split_py_append)
  have 4: "assemble s text = Inr code \<longleftrightarrow>
      list_all2 (\<lambda>l ins. assemble_line s l = Inr ins)
        (filter (\<lambda>l. l \<noteq> []) (split_py (CHR 0x0A) text)) code"
    by (simp add: assemble_def assemble_loop_Inr)
  from 1 2 3 4 assemble_blank_line [of s line a code' b] show ?thesis
    by blast
qed

theorem assemble_skips_empty_lines_witness:
  "assemble new_vm (''ADD'' @ CHR 0x0A # CHR 0x0A # ''EXIT'') = Inr [(2, NoneV), (3, NoneV)] \<and>
   registered new_vm \<and> blank_line [CHR 0x09, CHR '' ''] \<and>
   assemble new_vm ''ADD'' = Inr [(2, NoneV)] \<and>
   assemble new_vm (''ADD'' @ CHR 0x0A # [CHR 0x09, CHR '' ''] @ CHR 0x0A # ''EXIT'') =
     Inl InvalidInstruction"
proof -
  have a: "assemble new_vm (''ADD'' @ CHR 0x0A # ''EXIT'') = Inr [(2, NoneV), (3, NoneV)]"
    by (simp del: split_py.simps(2) add: split_py_Cons assemble_def assemble_line_def
        instruction_ids_new_vm)
  have b: "blank_line [CHR 0x09, CHR '' '']"
    by (simp add: blank_line_def)
  have c: "assemble new_vm ''ADD'' = Inr [(2, NoneV)]"
    by (simp del: split_py.simps(2) add: split_py_Cons assemble_def assemble_line_def
        instruction_ids_new_vm)
  have d: "CHR 0x0A \<notin> set [CHR 0x09, CHR '' '']"
    by simp
  from assemble_skips_empty_lines [of new_vm "''ADD''" "''EXIT''" "[]" "[]"
      "[CHR 0x09, CHR '' '']" "[(2, NoneV)]"]
    a b c d registered_new_vm
  show ?thesis by (simp del: append.simps)
qed

subsection \<open>EXIT and its depth check\<close>

text \<open>
  C4, as stated, fails: \<^verbatim>\<open>vm_exit\<close> is decorated with \<^verbatim>\<open>@check_argument_length()\<close>,
  whose default depth is 1, so EXIT on the empty stack of a fresh machine raises
  \<^verbatim>\<open>VMStackFail\<close> and does not signal termination.
\<close>

theorem vm_exit_empty_stack_counterexample:
  "stack new_vm = [] \<and> vm_exit new_vm NoneV = (Inl VMStackFail, new_vm)"
  by (simp add: vm_exit_def check_argument_length_def new_vm_fields)

text \<open>
  C4, amended: EXIT has a required stack depth of 1. On an empty stack it raises
  \<^verbatim>\<open>VMStackFail\<close>; on a stack of depth at least 1 it signals termination (status
  \<open>False\<close>). In both cases it leaves the state unchanged.
\<close>

theorem vm_exit_depth_one:
  "vm_exit s arg = (if length (stack s) < 1 then (Inl VMStackFail, s) else (Inr False, s))"
  by (simp add: vm_exit_def check_argument_length_def vm_exit_func_def)

theorem vm_exit_depth_one_witness:
  "vm_exit (new_vm\<lparr>stack := [IntV 7]\<rparr>) NoneV = (Inr False, new_vm\<lparr>stack := [IntV 7]\<rparr>)"
  using vm_exit_depth_one [of "new_vm\<lparr>stack := [IntV 7]\<rparr>" NoneV] by simp

subsection \<open>DIV\<close>

text \<open>
  C5, as stated for every stack of depth at least 2, fails: the program
  \<^verbatim>\<open>LOAD_CONST 5\<close>, \<^verbatim>\<open>LOAD_CONST\<close>, \<^verbatim>\<open>DIV\<close> reaches DIV with the stack
  \<open>[5, None]\<close>. The divisor \<^verbatim>\<open>None\<close> is not equal to 0, so DIV does not raise
  \<^verbatim>\<open>DivByZero\<close>, and \<^verbatim>\<open>5 // None\<close> raises \<^verbatim>\<open>TypeError\<close>: no quotient is pushed
  and both operands are gone.
\<close>

theorem vm_div_none_operand_counterexample:
  "assemble new_vm (''LOAD_CONST 5'' @ [CHR 0x0A] @ ''LOAD_CONST'' @ [CHR 0x0A] @ ''DIV'') =
     Inr [(1, IntV 5), (1, NoneV), (5, NoneV)] \<and>
   run (Suc (Suc (Suc 0))) [(1, IntV 5), (1, NoneV), (5, NoneV)] new_vm =
     Some (Inl TypeError, new_vm\<lparr>pc := IntV 3, stack := []\<rparr>) \<and>
   length (stack (new_vm\<lparr>stack := [IntV 5, NoneV]\<rparr>)) = 2 \<and>
   vm_div (new_vm\<lparr>stack := [IntV 5, NoneV]\<rparr>) NoneV = (Inl TypeError, new_vm\<lparr>stack := []\<rparr>)"
proof -
  have a: "assemble new_vm (''LOAD_CONST 5'' @ [CHR 0x0A] @ ''LOAD_CONST'' @ [CHR 0x0A] @ ''DIV'') =
     Inr [(1, IntV 5), (1, NoneV), (5, NoneV)]"
    by (simp del: split_py.simps(2) add: split_py_Cons assemble_def assemble_line_def
        instruction_ids_new_vm py_int_def strip_def py_isspace_def is_digit_def digit_val_def)
  have b: "run (Suc (Suc (Suc 0))) [(1, IntV 5), (1, NoneV), (5, NoneV)] new_vm =
     Some (Inl TypeError, new_vm\<lparr>pc := IntV 3, stack := []\<rparr>)"
    by (simp add: run_step_def new_vm_fields instruction_actions_new_vm vm_load_const_def
        stack_put_def vm_div_def vm_div_func_def check_argument_length_def stack_get_def
        py_floordiv_def)
  have c: "vm_div (new_vm\<lparr>stack := [IntV 5, NoneV]\<rparr>) NoneV =
     (Inl TypeError, new_vm\<lparr>stack := []\<rparr>)"
    by (simp add: vm_div_def vm_div_func_def check_argument_length_def stack_get_def
        py_floordiv_def)
  from a b c show ?thesis by simp
qed

text \<open>
  C5, amended to integer operands: on a stack of depth at least 2 whose two topmost
  values are the integers \<open>b\<close> (below) and \<open>a\<close> (on top), DIV pops \<open>a\<close>, then \<open>b\<close>;
  if \<open>a\<close> is 0 it raises \<^verbatim>\<open>DivByZero\<close>, otherwise it pushes the floor of the quotient
  \<open>b / a\<close> (also for negative operands) and continues.
\<close>

theorem vm_div_floor:
  assumes "stack s = rest @ [IntV b, IntV a]"
  shows "vm_div s arg =
     (if a = 0 then (Inl DivByZero, s\<lparr>stack := rest\<rparr>)
      else (Inr True, s\<lparr>stack := rest @ [IntV \<lfloor>real_of_int b / real_of_int a\<rfloor>]\<rparr>))"
  using assms
  by (simp add: vm_div_def check_argument_length_def vm_div_func_def stack_get_def stack_put_def
      py_floordiv_def floor_divide_of_int_eq butlast_append)

theorem vm_div_floor_witness:
  "stack (new_vm\<lparr>stack := [IntV 1, IntV (- 7), IntV 2]\<rparr>) = [IntV 1] @ [IntV (- 7), IntV 2] \<and>
   fst (vm_div (new_vm\<lparr>stack := [IntV 1, IntV (- 7), IntV 2]\<rparr>) NoneV) = Inr True \<and>
   stack (snd (vm_div (new_vm\<lparr>stack := [IntV 1, IntV (- 7), IntV 2]\<rparr>) NoneV)) =
     [IntV 1, IntV (- 4)]"
proof -
  have h: "stack (new_vm\<lparr>stack := [IntV 1, IntV (- 7), IntV 2]\<rparr>) = [IntV 1] @ [IntV (- 7), IntV 2]"
    by simp
  have "\<lfloor>real_of_int (- 7) / real_of_int 2\<rfloor> = - 4"
    by (simp add: floor_divide_of_int_eq [of "- 7" 2, simplified])
  with vm_div_floor [OF h, of NoneV] h show ?thesis
    by simp
qed

text \<open>
  C10: when DIV raises \<^verbatim>\<open>DivByZero\<close> (depth at least 2, the top is 0), both operands
  have been popped: the stack left behind is the original one without its two topmost
  elements.
\<close>

theorem vm_div_by_zero_pops_both:
  assumes "2 \<le> length (stack s)" and "last (stack s) = IntV 0"
  shows "vm_div s arg = (Inl DivByZero, s\<lparr>stack := butlast (butlast (stack s))\<rparr>)"
proof -
  from assms(1) have ne: "stack s \<noteq> []" and ne': "butlast (stack s) \<noteq> []"
    by (auto simp: butlast_nonempty)
  with assms show ?thesis
    by (simp add: vm_div_def check_argument_length_def vm_div_func_def stack_get_def)
qed

theorem vm_div_by_zero_pops_both_witness:
  "2 \<le> length (stack (new_vm\<lparr>stack := [IntV 5, IntV 100, IntV 0]\<rparr>)) \<and>
   last (stack (new_vm\<lparr>stack := [IntV 5, IntV 100, IntV 0]\<rparr>)) = IntV 0 \<and>
   fst (vm_div (new_vm\<lparr>stack := [IntV 5, IntV 100, IntV 0]\<rparr>) NoneV) = Inl DivByZero \<and>
   stack (snd (vm_div (new_vm\<lparr>stack := [IntV 5, IntV 100, IntV 0]\<rparr>) NoneV)) = [IntV 5]"
  using vm_div_by_zero_pops_both [of "new_vm\<lparr>stack := [IntV 5, IntV 100, IntV 0]\<rparr>" NoneV]
  by simp

subsection \<open>The loop: faults, EXIT and JMPZ\<close>

lemma call_registry:
  "instruction_ids (snd (call act s arg)) = instruction_ids s \<and>
   instruction_actions (snd (call act s arg)) = instruction_actions s"
  by (cases act) (auto simp: handler_defs split: sum.splits prod.splits)



lemma call_stop: "call act s arg = (Inr False, s') \<Longrightarrow> act = Vm_exit \<and> s' = s \<and> stack s \<noteq> []"
  by (cases act) (auto simp: handler_defs split: sum.splits prod.splits if_splits)


lemma run_step_stop: "run_step code s = (Inr False, s') \<Longrightarrow> stack s' \<noteq> []"
  by (auto simp: run_step_def Let_def split: val.splits prod.splits option.splits if_splits
      dest!: call_stop)




lemma registered_lookup:
  "registered s \<Longrightarrow> instruction_ids s name = Some op_id \<Longrightarrow>
     instruction_actions s op_id =
       (if name = ''PRINT'' then Some Vm_print else if name = ''LOAD_CONST'' then Some Vm_load_const
        else if name = ''ADD'' then Some Vm_add else if name = ''EXIT'' then Some Vm_exit
        else if name = ''POP'' then Some Vm_pop else if name = ''DIV'' then Some Vm_div
        else if name = ''EQ'' then Some Vm_eq else if name = ''NEQ'' then Some Vm_neq
        else if name = ''DUP'' then Some Vm_dup else if name = ''JMP'' then Some Vm_jmp
        else if name = ''JMPZ'' then Some Vm_jmpz else if name = ''WRITE'' then Some Vm_write
        else Some Vm_write_char)"
  by (auto simp: registered_def instruction_ids_new_vm instruction_actions_new_vm
      split: if_splits)






text \<open>
  C6: a loop iteration that fetches \<open>JMPZ n\<close> at address \<open>p\<close> requires depth 1 (it
  raises \<^verbatim>\<open>VMStackFail\<close> on the empty stack); when the top is zero or falsy it pops the
  top and sets the program counter to \<open>n\<close>; otherwise it leaves the stack as it is and
  the program counter is the already incremented \<open>p + 1\<close>.
\<close>

theorem jmpz_step:
  assumes "registered s" and "pc s = IntV p" and "0 \<le> p" and "p < int (length code)"
    and "code ! nat p = (op_id, arg)" and "instruction_ids s ''JMPZ'' = Some op_id"
  shows "run_step code s =
     (if stack s = [] then (Inl VMStackFail, s\<lparr>pc := IntV (p + 1)\<rparr>)
      else if last (stack s) = IntV 0 \<or> last (stack s) = NoneV
        then (Inr True, s\<lparr>pc := arg, stack := butlast (stack s)\<rparr>)
      else (Inr True, s\<lparr>pc := IntV (p + 1)\<rparr>))"
proof -
  from assms(1,6) have "instruction_actions s op_id = Some Vm_jmpz"
    by (simp add: registered_lookup)
  with assms show ?thesis
    by (auto simp: run_step_def vm_jmpz_def check_argument_length_def vm_jmpz_func_def
        stack_top_def stack_get_def py_not_def split: val.splits)
qed

theorem jmpz_step_witness:
  "run_step [(10, IntV 7)] (new_vm\<lparr>stack := [IntV 3, IntV 0]\<rparr>) =
     (Inr True, new_vm\<lparr>pc := IntV 7, stack := [IntV 3]\<rparr>) \<and>
   run_step [(10, IntV 7)] (new_vm\<lparr>stack := [IntV 3, IntV 5]\<rparr>) =
     (Inr True, new_vm\<lparr>pc := IntV 1, stack := [IntV 3, IntV 5]\<rparr>)"
proof -
  have r: "registered (new_vm\<lparr>stack := st\<rparr>)" for st
    by (simp add: registered_def)
  have i: "instruction_ids (new_vm\<lparr>stack := st\<rparr>) ''JMPZ'' = Some 10" for st
    by (simp add: instruction_ids_new_vm)
  have p: "pc (new_vm\<lparr>stack := st\<rparr>) = IntV 0" for st
    by (simp add: new_vm_fields)
  have c: "[(10, IntV 7)] ! nat 0 = (10 :: int, IntV 7)"
    by simp
  have l: "(0 :: int) < int (length [(10 :: int, IntV 7)])"
    by simp
  from jmpz_step [OF r p order_refl l c i, of "[IntV 3, IntV 0]"]
    jmpz_step [OF r p order_refl l c i, of "[IntV 3, IntV 5]"]
  show ?thesis
    by simp
qed

subsection \<open>What the operand stack holds\<close>

text \<open>
  C2, as stated, fails: the line \<^verbatim>\<open>LOAD_CONST\<close> without an argument assembles to an
  instruction whose argument is \<^verbatim>\<open>None\<close>, and executing it pushes \<^verbatim>\<open>None\<close>.
\<close>

theorem load_const_without_argument_counterexample:
  "assemble new_vm ''LOAD_CONST'' = Inr [(1, NoneV)] \<and>
   fst (run_step [(1, NoneV)] new_vm) = Inr True \<and>
   stack (snd (run_step [(1, NoneV)] new_vm)) = [NoneV]"
proof -
  have "assemble new_vm ''LOAD_CONST'' = Inr [(1, NoneV)]"
    by (simp add: assemble_def assemble_line_def instruction_ids_new_vm)
  moreover have "run_step [(1, NoneV)] new_vm = (Inr True, new_vm\<lparr>pc := IntV 1, stack := [NoneV]\<rparr>)"
    by (simp add: run_step_def new_vm_fields instruction_actions_new_vm vm_load_const_def
        stack_put_def)
  ultimately show ?thesis by simp
qed

lemma registered_step: "registered s \<Longrightarrow> registered (snd (run_step code s))"
  by (auto simp: registered_def run_step_def Let_def call_registry
      split: val.splits prod.splits option.splits)

lemma args_present_cong:
  "instruction_ids t = instruction_ids s \<Longrightarrow> args_present t code = args_present s code"
  by (simp add: args_present_def)

lemma run_step_ids: "instruction_ids (snd (run_step code s)) = instruction_ids s"
  by (auto simp: run_step_def Let_def call_registry
      split: val.splits prod.splits option.splits)

lemma int_stack_call:
  "int_stack s \<Longrightarrow> (act = Vm_load_const \<longrightarrow> arg \<noteq> NoneV) \<Longrightarrow> int_stack (snd (call act s arg))"
  by (cases act)
    (auto simp: int_stack_def list_all_iff handler_defs py_add_def py_floordiv_def
      split: sum.splits prod.splits val.splits if_splits dest: in_set_butlastD)

lemma registered_load_const:
  "registered s \<Longrightarrow> instruction_actions s op_id = Some Vm_load_const \<Longrightarrow>
     instruction_ids s ''LOAD_CONST'' = Some op_id"
  by (auto simp: registered_def instruction_ids_new_vm instruction_actions_new_vm
      split: if_splits)

lemma int_stack_step:
  assumes "registered s" and "args_present s code" and "int_stack s"
  shows "int_stack (snd (run_step code s))"
proof (cases "pc s")
  case NoneV
  with assms show ?thesis by (simp add: run_step_def)
next
  case (IntV p)
  show ?thesis
  proof (cases "p < 0 \<or> int (length code) \<le> p")
    case True
    with IntV assms show ?thesis by (auto simp: run_step_def)
  next
    case False
    obtain op_id arg where ins: "code ! nat p = (op_id, arg)"
      by (cases "code ! nat p")
    from False have "nat p < length code" by auto
    then have mem: "(op_id, arg) \<in> set code"
      using ins nth_mem by metis
    have st: "int_stack (s\<lparr>pc := IntV (p + 1)\<rparr>)"
      using assms(3) by (simp add: int_stack_def)
    show ?thesis
    proof (cases "instruction_actions s op_id")
      case None
      with IntV False ins st show ?thesis by (simp add: run_step_def)
    next
      case (Some act)
      have "act = Vm_load_const \<longrightarrow> arg \<noteq> NoneV"
      proof
        assume "act = Vm_load_const"
        with Some assms(1) have "instruction_ids s ''LOAD_CONST'' = Some op_id"
          by (simp add: registered_load_const)
        with assms(2) mem show "arg \<noteq> NoneV"
          by (auto simp: args_present_def list_all_iff)
      qed
      from int_stack_call [OF st this] IntV False ins Some show ?thesis
        by (simp add: run_step_def)
    qed
  qed
qed

lemma int_stack_state_at:
  "registered s \<Longrightarrow> args_present s code \<Longrightarrow> int_stack s \<Longrightarrow> int_stack (state_at k code s)"
proof (induction k arbitrary: s)
  case 0
  then show ?case by simp
next
  case (Suc k)
  obtain r t where rt: "run_step code s = (r, t)" by (cases "run_step code s")
  have t: "registered t" "args_present t code" "int_stack t"
    using registered_step [OF Suc.prems(1), of code] int_stack_step [OF Suc.prems]
      run_step_ids [of code s] Suc.prems(2) rt
    by (simp_all add: args_present_def)
  show ?case
  proof (cases "r = Inr True")
    case True
    with rt Suc.IH [OF t] show ?thesis by simp
  next
    case False
    with rt t show ?thesis
      by (cases r) (auto split: bool.splits)
  qed
qed

text \<open>
  C2, amended: starting from a stack of integers, a registered machine running a program
  whose LOAD_CONST instructions all carry an integer argument has only integers on its
  stack at every step of the run.
\<close>

theorem integer_stack_invariant:
  assumes "registered s" and "args_present s code" and "int_stack s"
  shows "int_stack (state_at k code s)"
  using assms by (rule int_stack_state_at)

lemmas eval_defs =
  run_step_def registered_def args_present_def int_stack_def new_vm_fields
  instruction_ids_new_vm instruction_actions_new_vm handler_defs py_add_def

theorem integer_stack_invariant_witness:
  "registered new_vm \<and> int_stack new_vm \<and>
   args_present new_vm [(1, IntV 2), (1, IntV 3), (2, NoneV), (3, NoneV)] \<and>
   int_stack (state_at (Suc (Suc (Suc 0))) [(1, IntV 2), (1, IntV 3), (2, NoneV), (3, NoneV)] new_vm) \<and>
   stack (state_at (Suc (Suc (Suc 0))) [(1, IntV 2), (1, IntV 3), (2, NoneV), (3, NoneV)] new_vm) =
     [IntV 5]"
proof -
  have a: "registered new_vm"
    "args_present new_vm [(1, IntV 2), (1, IntV 3), (2, NoneV), (3, NoneV)]"
    "int_stack new_vm"
    by (simp_all add: eval_defs)
  have b: "stack (state_at (Suc (Suc (Suc 0))) [(1, IntV 2), (1, IntV 3), (2, NoneV), (3, NoneV)] new_vm) =
     [IntV 5]"
    by (simp add: eval_defs)
  from integer_stack_invariant [OF a, of "Suc (Suc (Suc 0))"] a b show ?thesis
    by simp
qed

subsection \<open>The result of a run\<close>

lemma registered_write:
  "registered s \<Longrightarrow> instruction_actions s op_id = Some act \<Longrightarrow>
     (instruction_ids s ''WRITE'' = Some op_id \<longleftrightarrow> act = Vm_write) \<and>
     (instruction_ids s ''WRITE_CHAR'' = Some op_id \<longleftrightarrow> act = Vm_write_char)"
  by (auto simp: registered_def instruction_ids_new_vm instruction_actions_new_vm
      split: if_splits)

lemma call_output:
  "fst (call act s arg) = Inr b \<Longrightarrow>
     vm_output (snd (call act s arg)) =
       vm_output s @
         (if act = Vm_write then py_str (last (stack s))
          else if act = Vm_write_char
            then (case last (stack s) of
                    IntV i \<Rightarrow> if 0 \<le> i \<and> i < 1114112 then [nat i] else []
                  | NoneV \<Rightarrow> [])
          else []) \<and>
     ((act = Vm_write \<or> act = Vm_write_char) \<longrightarrow> stack s \<noteq> [])"
  by (cases act)
    (auto simp: handler_defs py_add_def py_floordiv_def py_chr_def
      split: sum.splits prod.splits val.splits if_splits)

lemma run_step_output:
  assumes "registered s" and "fst (run_step code s) = Inr b"
  shows "vm_output (snd (run_step code s)) = vm_output s @ written code s"
proof (cases "pc s")
  case NoneV
  with assms show ?thesis by (simp add: run_step_def)
next
  case (IntV p)
  show ?thesis
  proof (cases "p < 0 \<or> int (length code) \<le> p")
    case True
    with IntV assms show ?thesis by (auto simp: run_step_def)
  next
    case False
    obtain op_id arg where ins: "code ! nat p = (op_id, arg)"
      by (cases "code ! nat p")
    show ?thesis
    proof (cases "instruction_actions s op_id")
      case None
      with IntV False ins assms show ?thesis by (simp add: run_step_def)
    next
      case (Some act)
      let ?s1 = "s\<lparr>pc := IntV (p + 1)\<rparr>"
      from IntV False ins Some have rs: "run_step code s = call act ?s1 arg"
        by (simp add: run_step_def)
      with assms(2) have "fst (call act ?s1 arg) = Inr b" by simp
      from call_output [OF this] registered_write [OF assms(1) Some] rs IntV False ins
      show ?thesis
        by (auto simp: written_def py_str_def split: val.splits)
    qed
  qed
qed

lemma digits10_range: "\<forall>c\<in>set (digits10 n). 48 \<le> c \<and> c \<le> 57"
proof (induction n rule: digits10.induct)
  case (1 n)
  show ?case
  proof (cases "n < 10")
    case True
    then show ?thesis by (subst digits10.simps) simp
  next
    case False
    have "n mod 10 < 10" by simp
    with False 1 show ?thesis
      by (subst digits10.simps) (auto simp del: digits10.simps)
  qed
qed

lemma str_int_not_None: "str_int i \<noteq> ustr ''None''"
proof
  assume h: "str_int i = ustr ''None''"
  have "78 \<in> set (ustr ''None'')" by (simp add: ustr_def)
  with h have "78 \<in> set (str_int i)" by simp
  then show False
    using digits10_range [of "nat i"] digits10_range [of "nat (- i)"]
    by (auto simp: str_int_def split: if_splits)
qed

text \<open>
  C1, as stated, fails: the program \<^verbatim>\<open>LOAD_CONST\<close>, \<^verbatim>\<open>WRITE\<close>, \<^verbatim>\<open>EXIT\<close> terminates
  via EXIT with a non-empty stack, and its WRITE, executed with \<^verbatim>\<open>None\<close> on top,
  appends the text \<^verbatim>\<open>None\<close>, which is the decimal form of no integer.
\<close>

theorem write_none_counterexample:
  "assemble new_vm (''LOAD_CONST'' @ [CHR 0x0A] @ ''WRITE'' @ [CHR 0x0A] @ ''EXIT'') =
     Inr [(1, NoneV), (11, NoneV), (3, NoneV)] \<and>
   run (Suc (Suc (Suc 0))) [(1, NoneV), (11, NoneV), (3, NoneV)] new_vm =
     Some (Inr (NoneV, ustr ''None''),
           new_vm\<lparr>pc := IntV 3, stack := [NoneV], vm_output := ustr ''None''\<rparr>) \<and>
   (\<forall>i. str_int i \<noteq> ustr ''None'')"
proof -
  have a: "assemble new_vm (''LOAD_CONST'' @ [CHR 0x0A] @ ''WRITE'' @ [CHR 0x0A] @ ''EXIT'') =
     Inr [(1, NoneV), (11, NoneV), (3, NoneV)]"
    by (simp del: split_py.simps(2) add: split_py_Cons assemble_def assemble_line_def
        instruction_ids_new_vm)
  have b: "run (Suc (Suc (Suc 0))) [(1, NoneV), (11, NoneV), (3, NoneV)] new_vm =
     Some (Inr (NoneV, ustr ''None''),
           new_vm\<lparr>pc := IntV 3, stack := [NoneV], vm_output := ustr ''None''\<rparr>)"
    by (simp add: run_step_def new_vm_fields instruction_actions_new_vm vm_load_const_def
        stack_put_def vm_write_def vm_write_func_def vm_exit_def vm_exit_func_def
        check_argument_length_def stack_top_def run_return_def py_str_def)
  from a b str_int_not_None show ?thesis by simp
qed

text \<open>
  C1, amended: when a run from a registered state makes \<open>k\<close> iterations that continue and
  then one that signals stop (only EXIT does), the stack is non-empty and \<^verbatim>\<open>run\<close>
  returns, with any larger number of iterations allowed, the value on top of the
  stack together with the output: the output held at the start followed by the texts
  appended by the executed instructions, in execution order. WRITE appends the decimal
  form of the top when it is an integer and the text \<^verbatim>\<open>None\<close> when it is
  \<^verbatim>\<open>None\<close>; WRITE_CHAR appends the character whose code point is the top; no other
  instruction appends anything.
\<close>

theorem run_returns_output:
  assumes "registered s"
    and "\<forall>i<k. fst (run_step code (state_at i code s)) = Inr True"
    and "run_step code (state_at k code s) = (Inr False, s')"
  shows "stack s' \<noteq> [] \<and>
     run (Suc k + m) code s =
       Some (Inr (last (stack s'),
                  vm_output s @ concat (map (\<lambda>i. written code (state_at i code s)) [0..<Suc k])),
             s')"
  using assms
proof (induction k arbitrary: s)
  case 0
  from 0(3) have st: "run_step code s = (Inr False, s')" by simp
  from run_step_stop [OF st] have ne: "stack s' \<noteq> []" .
  from run_step_output [OF 0(1), of code False] st
  have "vm_output s' = vm_output s @ written code s" by simp
  with st ne show ?case
    by (simp add: run_return_def stack_top_def)
next
  case (Suc k)
  obtain t where t: "run_step code s = (Inr True, t)"
    using Suc.prems(2) [rule_format, of 0] by (cases "run_step code s") auto
  have rt: "registered t"
    using registered_step [OF Suc.prems(1), of code] t by simp
  have ot: "vm_output t = vm_output s @ written code s"
    using run_step_output [OF Suc.prems(1), of code True] t by simp
  have sa: "state_at (Suc i) code s = state_at i code t" for i
    using t by simp
  have ih1: "\<forall>i<k. fst (run_step code (state_at i code t)) = Inr True"
  proof (intro allI impI)
    fix i assume "i < k"
    then have "Suc i < Suc k" by simp
    from Suc.prems(2) [rule_format, OF this] show "fst (run_step code (state_at i code t)) = Inr True"
      by (simp only: sa)
  qed
  have ih2: "run_step code (state_at k code t) = (Inr False, s')"
    using Suc.prems(3) by (simp only: sa)
  from Suc.IH [OF rt ih1 ih2]
  have ih: "stack s' \<noteq> []"
    "run (Suc k + m) code t =
       Some (Inr (last (stack s'),
                  vm_output t @ concat (map (\<lambda>i. written code (state_at i code t)) [0..<Suc k])),
             s')"
    by simp_all
  have up: "[0..<Suc (Suc k)] = 0 # map Suc [0..<Suc k]"
    by (simp only: upt_conv_Cons [of 0 "Suc (Suc k)"] map_Suc_upt)
  have cc: "concat (map (\<lambda>i. written code (state_at i code s)) [0..<Suc (Suc k)]) =
      written code s @ concat (map (\<lambda>i. written code (state_at i code t)) [0..<Suc k])"
    unfolding up by (simp add: comp_def sa del: upt_Suc state_at.simps(2))
  have "run (Suc (Suc k) + m) code s = run (Suc k + m) code t"
    using t by simp
  with ih ot cc show ?case
    by (simp del: upt_Suc run.simps state_at.simps)
qed

theorem run_returns_output_witness:
  "registered new_vm \<and>
   run (Suc (Suc (Suc (Suc 0)))) [(1, IntV 65), (12, NoneV), (11, NoneV), (3, NoneV)] new_vm =
     Some (Inr (IntV 65, [65, 54, 53]),
           new_vm\<lparr>pc := IntV 4, stack := [IntV 65], vm_output := [65, 54, 53]\<rparr>)"
proof -
  let ?code = "[(1, IntV 65), (12, NoneV), (11, NoneV), (3, NoneV)]"
  have s1: "run_step ?code new_vm = (Inr True, new_vm\<lparr>pc := IntV 1, stack := [IntV 65]\<rparr>)"
    by (simp add: run_step_def new_vm_fields instruction_actions_new_vm vm_load_const_def
        stack_put_def)
  have s2: "run_step ?code (new_vm\<lparr>pc := IntV 1, stack := [IntV 65]\<rparr>) =
      (Inr True, new_vm\<lparr>pc := IntV 2, stack := [IntV 65], vm_output := [65]\<rparr>)"
    by (simp add: run_step_def new_vm_fields instruction_actions_new_vm vm_write_char_def
        vm_write_char_func_def check_argument_length_def stack_top_def py_chr_def)
  have d: "digits10 65 = [54, 53]"
    by (simp add: digits10.simps)
  have s3: "run_step ?code (new_vm\<lparr>pc := IntV 2, stack := [IntV 65], vm_output := [65]\<rparr>) =
      (Inr True, new_vm\<lparr>pc := IntV 3, stack := [IntV 65], vm_output := [65, 54, 53]\<rparr>)"
    by (simp add: run_step_def new_vm_fields instruction_actions_new_vm vm_write_def
        vm_write_func_def check_argument_length_def stack_top_def py_str_def str_int_def d)
  have s4: "run_step ?code (new_vm\<lparr>pc := IntV 3, stack := [IntV 65], vm_output := [65, 54, 53]\<rparr>) =
      (Inr False, new_vm\<lparr>pc := IntV 4, stack := [IntV 65], vm_output := [65, 54, 53]\<rparr>)"
    by (simp add: run_step_def new_vm_fields instruction_actions_new_vm vm_exit_def
        vm_exit_func_def check_argument_length_def)
  have st: "state_at 0 ?code new_vm = new_vm"
    "state_at (Suc 0) ?code new_vm = new_vm\<lparr>pc := IntV 1, stack := [IntV 65]\<rparr>"
    "state_at (Suc (Suc 0)) ?code new_vm = new_vm\<lparr>pc := IntV 2, stack := [IntV 65], vm_output := [65]\<rparr>"
    "state_at (Suc (Suc (Suc 0))) ?code new_vm =
       new_vm\<lparr>pc := IntV 3, stack := [IntV 65], vm_output := [65, 54, 53]\<rparr>"
    by (simp_all add: s1 s2 s3)
  have h2: "\<forall>i<Suc (Suc (Suc 0)). fst (run_step ?code (state_at i ?code new_vm)) = Inr True"
    by (simp add: less_Suc_eq st s1 s2 s3 del: state_at.simps)
  have h3: "run_step ?code (state_at (Suc (Suc (Suc 0))) ?code new_vm) =
      (Inr False, new_vm\<lparr>pc := IntV 4, stack := [IntV 65], vm_output := [65, 54, 53]\<rparr>)"
    by (simp only: st s4)
  have w: "written ?code (state_at 0 ?code new_vm) = []"
    "written ?code (state_at (Suc 0) ?code new_vm) = [65]"
    "written ?code (state_at (Suc (Suc 0)) ?code new_vm) = [54, 53]"
    "written ?code (state_at (Suc (Suc (Suc 0))) ?code new_vm) = []"
    by (simp_all only: st) (simp_all add: written_def new_vm_fields instruction_ids_new_vm str_int_def d)
  have u: "[0..<Suc (Suc (Suc (Suc 0)))] = [0, Suc 0, Suc (Suc 0), Suc (Suc (Suc 0))]"
    by (simp add: upt_rec)
  from run_returns_output [OF registered_new_vm h2 h3, of 0]
  have "run (Suc (Suc (Suc (Suc 0)))) ?code new_vm =
     Some (Inr (IntV 65, [65, 54, 53]),
           new_vm\<lparr>pc := IntV 4, stack := [IntV 65], vm_output := [65, 54, 53]\<rparr>)"
    by (simp only: u list.map concat.simps w append_Nil append_Nil2 new_vm_fields add_0_right
        add_Suc_right) simp
  with registered_new_vm show ?thesis
    by (simp del: run.simps)
qed

end
